theory Spec2Isabelle
  imports Main "HOL-Library.Sublist"
begin

section \<open>The compile pipeline of \<^verbatim>\<open>compileSrcDir\<close>\<close>

text \<open>
  The development embeds the build pipeline found in the second half of
  \<^verbatim>\<open>src/client/client-host-ref.ts\<close>: \<^verbatim>\<open>compileSrcDir\<close>, \<^verbatim>\<open>scanDir\<close>,
  \<^verbatim>\<open>copySourceSassFilesToDest\<close> and \<^verbatim>\<open>isValidDirectory\<close>.

  Promises are modelled by their outcome. A promise that resolves is \<open>Some\<close> of the
  state it leaves behind, a promise that never settles is \<open>None\<close>, and a promise that may
  reject is a sum whose \<open>Inl\<close> carries the rejection. The callbacks of a scan are run in
  the order in which the source starts them, the reads of asset files deliver in the order
  the host gives them; the shared \<^verbatim>\<open>compileResults\<close> and \<^verbatim>\<open>ctx\<close> objects are
  threaded through as explicit state.
\<close>

subsection \<open>Data\<close>

type_synonym path = string
type_synonym err = string

record diagnostic =
  level :: string
  messageText :: string

datatype manifest = EmptyManifest | Manifest string

record moduleFile =
  tsFilePath :: path
  jsFilePath :: path
  jsText :: string
  mf_includedSassFiles :: "path list option"

record compileResults =
  moduleFiles :: "path \<rightharpoonup> moduleFile"
  diagnostics :: "diagnostic list"
  manifest :: manifest
  includedSassFiles :: "path list"

record transpileResults =
  tr_diagnostics :: "diagnostic list"
  tr_moduleFiles :: "(path \<times> moduleFile) list option"

record buildContext =
  filesToWrite :: "path \<rightharpoonup> string"

record buildConfig =
  src :: path
  rootDir :: path
  collectionDest :: path
  exclude :: "string list"
  generateCollection :: bool

text \<open>
  The functions the pipeline imports from other modules (\<^verbatim>\<open>./util\<close>, \<^verbatim>\<open>./manifest\<close>,
  \<^verbatim>\<open>./transpile/*\<close>) and the \<^verbatim>\<open>sys.path\<close> object are not part of the source at hand.
  They are parameters of the model, gathered in one record. A function that returns a
  promise, or that may throw, returns a sum. The collaborators are taken not to write to
  \<^verbatim>\<open>ctx.filesToWrite\<close> themselves. \<open>readLatency\<close> is the time the file system takes to
  deliver the read of a path: reads started together deliver in the order of these times,
  reads of equal time in the order in which they were started.
\<close>

record host =
  normalizePath :: "path \<Rightarrow> path"
  path_join :: "path \<Rightarrow> path \<Rightarrow> path"
  path_relative :: "path \<Rightarrow> path \<Rightarrow> path"
  isTsSourceFile :: "path \<Rightarrow> bool"
  getModuleFile :: "buildConfig \<Rightarrow> buildContext \<Rightarrow> path \<Rightarrow> err + moduleFile"
  readFile :: "path \<Rightarrow> err + string"
  transpile :: "buildConfig \<Rightarrow> buildContext \<Rightarrow> (path \<rightharpoonup> moduleFile) \<Rightarrow> err + transpileResults"
  generateManifest :: "buildConfig \<Rightarrow> buildContext \<Rightarrow> compileResults \<Rightarrow> err + manifest"
  readLatency :: "path \<Rightarrow> nat"

text \<open>
  The file system as \<^verbatim>\<open>sys.fs.readdir\<close> and \<^verbatim>\<open>sys.fs.stat\<close> show it to the scan: a
  finite tree. \<^verbatim>\<open>stat\<close> on a node fails (\<open>StatFails\<close>), reports a non-directory (\<open>File\<close>)
  or reports a directory; \<^verbatim>\<open>readdir\<close> on a directory lists its entries (\<open>Dir\<close>) or fails
  (\<open>DirUnreadable\<close>); \<^verbatim>\<open>readdir\<close> on anything that is no directory fails.
\<close>

datatype fsnode =
    StatFails err
  | File
  | DirUnreadable err
  | Dir "(string \<times> fsnode) list"

subsection \<open>String search\<close>

text \<open>
  \<^verbatim>\<open>String.prototype.indexOf\<close>: the least position at which the search string
  occurs, \<open>-1\<close> when it occurs nowhere. The empty search string occurs at position 0.
\<close>

fun indexOfFrom :: "string \<Rightarrow> string \<Rightarrow> int \<Rightarrow> int" where
  "indexOfFrom [] pat k = (if pat = [] then k else - 1)"
| "indexOfFrom (c # cs) pat k =
     (if prefix pat (c # cs) then k else indexOfFrom cs pat (k + 1))"

definition indexOf :: "string \<Rightarrow> string \<Rightarrow> int" where
  "indexOf s pat = indexOfFrom s pat 0"

subsection \<open>\<^verbatim>\<open>isValidDirectory\<close>\<close>

fun isValidDirectory :: "string list \<Rightarrow> path \<Rightarrow> bool" where
  "isValidDirectory [] filePath = True"
| "isValidDirectory (e # es) filePath =
     (if indexOf filePath e > - 1 then False else isValidDirectory es filePath)"

subsection \<open>\<^verbatim>\<open>catchError\<close>\<close>

text \<open>
  Modelled from the spec: \<^verbatim>\<open>catchError\<close> of \<^verbatim>\<open>./util\<close> is missing from the source. The
  spec has a fault "converted into a diagnostic" of an append-only sequence: the function
  appends one error record carrying the fault to the diagnostics it is given.
\<close>

definition diagnosticOf :: "err \<Rightarrow> diagnostic" where
  "diagnosticOf e = \<lparr>level = ''error'', messageText = e\<rparr>"

definition catchError :: "diagnostic list \<Rightarrow> err \<Rightarrow> diagnostic list" where
  "catchError ds e = ds @ [diagnosticOf e]"

subsection \<open>\<^verbatim>\<open>scanDir\<close>\<close>

text \<open>
  \<open>scanDir\<close> is the promise \<^verbatim>\<open>scanDir\<close> returns, \<open>scanItems\<close> the \<^verbatim>\<open>files.forEach\<close>
  loop together with the \<^verbatim>\<open>Promise.all\<close> that joins it, and \<open>scanItem\<close> the promise
  pushed for one entry. None of these promises is ever rejected: each is built from
  \<^verbatim>\<open>resolve\<close> alone. The promise of an entry whose \<^verbatim>\<open>getModuleFile\<close> rejects is never
  resolved, and with it neither \<^verbatim>\<open>Promise.all\<close> nor any enclosing \<^verbatim>\<open>scanDir\<close>.
\<close>

function scanDir :: "host \<Rightarrow> buildConfig \<Rightarrow> buildContext \<Rightarrow> path \<Rightarrow> fsnode
      \<Rightarrow> compileResults \<Rightarrow> compileResults option"
  and scanItems :: "host \<Rightarrow> buildConfig \<Rightarrow> buildContext \<Rightarrow> path \<Rightarrow> (string \<times> fsnode) list
      \<Rightarrow> compileResults \<Rightarrow> compileResults option"
  and scanItem :: "host \<Rightarrow> buildConfig \<Rightarrow> buildContext \<Rightarrow> path \<Rightarrow> fsnode
      \<Rightarrow> compileResults \<Rightarrow> compileResults option"
where
  "scanDir h cfg ctx dir (Dir files) cr = scanItems h cfg ctx (normalizePath h dir) files cr"
| "scanDir h cfg ctx dir (DirUnreadable e) cr = Some cr"
| "scanDir h cfg ctx dir File cr = Some cr"
| "scanDir h cfg ctx dir (StatFails e) cr = Some cr"
| "scanItems h cfg ctx dir [] cr = Some cr"
| "scanItems h cfg ctx dir ((dirItem, node) # rest) cr =
     (let readPath = path_join h dir dirItem in
      if \<not> isValidDirectory (exclude cfg) readPath then scanItems h cfg ctx dir rest cr
      else (case scanItem h cfg ctx readPath node cr of
              None \<Rightarrow> None
            | Some cr' \<Rightarrow> scanItems h cfg ctx dir rest cr'))"
| "scanItem h cfg ctx readPath (StatFails e) cr =
     Some (cr\<lparr>diagnostics := catchError (diagnostics cr) e\<rparr>)"
| "scanItem h cfg ctx readPath (Dir files) cr = scanDir h cfg ctx readPath (Dir files) cr"
| "scanItem h cfg ctx readPath (DirUnreadable e) cr =
     scanDir h cfg ctx readPath (DirUnreadable e) cr"
| "scanItem h cfg ctx readPath File cr =
     (if isTsSourceFile h readPath then
        (case getModuleFile h cfg ctx readPath of
           Inl e \<Rightarrow> None
         | Inr mf \<Rightarrow> Some (cr\<lparr>moduleFiles := (moduleFiles cr)(tsFilePath mf \<mapsto> mf)\<rparr>))
      else Some cr)"
  by pat_completeness auto
termination
  by (relation "measure (\<lambda>x. case x of
        Inl (h, cfg, ctx, dir, node, cr) \<Rightarrow> 2 * size node
      | Inr (Inl (h, cfg, ctx, dir, files, cr)) \<Rightarrow> 2 * size_list (size_prod (\<lambda>_. 0) size) files
      | Inr (Inr (h, cfg, ctx, dir, node, cr)) \<Rightarrow> 2 * size node + 1)")
    auto

subsection \<open>Merging the transpiled module files\<close>

text \<open>
  The inner \<^verbatim>\<open>forEach\<close> over \<^verbatim>\<open>moduleFile.includedSassFiles\<close>: a path is pushed unless
  \<^verbatim>\<open>indexOf\<close> finds it in the array already.
\<close>

fun pushSassFiles :: "path list \<Rightarrow> path list \<Rightarrow> path list" where
  "pushSassFiles acc [] = acc"
| "pushSassFiles acc (f # fs) = pushSassFiles (if f \<in> set acc then acc else acc @ [f]) fs"

text \<open>The body of the outer \<^verbatim>\<open>forEach\<close> over the keys of \<^verbatim>\<open>transpileResults.moduleFiles\<close>.\<close>

definition mergeModuleFile :: "buildConfig \<Rightarrow> path \<times> moduleFile
      \<Rightarrow> compileResults \<times> buildContext \<Rightarrow> compileResults \<times> buildContext" where
  "mergeModuleFile cfg kv s =
     (let tsFilePath = fst kv; moduleFile = snd kv; cr = fst s; ctx = snd s;
          cr1 = cr\<lparr>moduleFiles := (moduleFiles cr)(tsFilePath \<mapsto> moduleFile)\<rparr>;
          ctx1 = (if generateCollection cfg
                  then ctx\<lparr>filesToWrite := (filesToWrite ctx)(jsFilePath moduleFile \<mapsto> jsText moduleFile)\<rparr>
                  else ctx);
          cr2 = (case mf_includedSassFiles moduleFile of
                   None \<Rightarrow> cr1
                 | Some fs \<Rightarrow> cr1\<lparr>includedSassFiles := pushSassFiles (includedSassFiles cr1) fs\<rparr>)
      in (cr2, ctx1))"

text \<open>
  The keys of the object are enumerated once each, in the order \<^verbatim>\<open>Object.keys\<close> gives
  them: the loop is a left-to-right pass over the list of key and value.
\<close>

fun mergeModuleFiles :: "buildConfig \<Rightarrow> (path \<times> moduleFile) list
      \<Rightarrow> compileResults \<times> buildContext \<Rightarrow> compileResults \<times> buildContext" where
  "mergeModuleFiles cfg [] s = s"
| "mergeModuleFiles cfg (kv # kvs) s = mergeModuleFiles cfg kvs (mergeModuleFile cfg kv s)"

subsection \<open>\<^verbatim>\<open>copySourceSassFilesToDest\<close>\<close>

definition sassDestPath :: "host \<Rightarrow> buildConfig \<Rightarrow> path \<Rightarrow> path" where
  "sassDestPath h cfg sassSrcPath =
     (let includeDir = (indexOf sassSrcPath (src cfg) = 0) in
      if includeDir
      then normalizePath h (path_join h (collectionDest cfg)
             (path_relative h (src cfg) sassSrcPath))
      else normalizePath h (path_join h (rootDir cfg)
             (path_relative h (rootDir cfg) sassSrcPath)))"

text \<open>
  One element of the \<^verbatim>\<open>map\<close>: the promise of \<^verbatim>\<open>readFile\<close> followed by the write into
  \<^verbatim>\<open>ctx.filesToWrite\<close>. It rejects when the read rejects, and writes nothing then.
\<close>

definition copySassFile :: "host \<Rightarrow> buildConfig \<Rightarrow> path \<Rightarrow> buildContext
      \<Rightarrow> (err + unit) \<times> buildContext" where
  "copySassFile h cfg sassSrcPath0 ctx =
     (let sassSrcPath = normalizePath h sassSrcPath0 in
      case readFile h sassSrcPath of
        Inl e \<Rightarrow> (Inl e, ctx)
      | Inr sassSrcText \<Rightarrow>
          (Inr (), ctx\<lparr>filesToWrite :=
             (filesToWrite ctx)(sassDestPath h cfg sassSrcPath \<mapsto> sassSrcText)\<rparr>))"

text \<open>
  The \<^verbatim>\<open>map\<close> starts every read before any of them delivers. \<open>deliveryOrder\<close> is the
  order in which the reads of a list deliver.
\<close>

definition deliveryOrder :: "host \<Rightarrow> path list \<Rightarrow> path list" where
  "deliveryOrder h ps = sort_key (\<lambda>p. readLatency h (normalizePath h p)) ps"

text \<open>
  \<^verbatim>\<open>Promise.all\<close> over the promises of a list of assets, taken in the order in which
  their reads deliver. The joined promise resolves once every element has resolved. It
  rejects as soon as one element rejects: with that failure, and with the pending-write
  map as the reads delivered before it have left it.
\<close>

fun copySassFiles :: "host \<Rightarrow> buildConfig \<Rightarrow> path list \<Rightarrow> buildContext
      \<Rightarrow> (err + unit) \<times> buildContext" where
  "copySassFiles h cfg [] ctx = (Inr (), ctx)"
| "copySassFiles h cfg (p # ps) ctx =
     (case fst (copySassFile h cfg p ctx) of
        Inl e \<Rightarrow> (Inl e, ctx)
      | Inr u \<Rightarrow> copySassFiles h cfg ps (snd (copySassFile h cfg p ctx)))"

text \<open>
  The reads that have not delivered when the joined promise rejects are not cancelled:
  each of them still runs its callback when it delivers. \<open>sassFilesDelivered\<close> is the
  pending-write map once every read of the list has delivered.
\<close>

fun sassFilesDelivered :: "host \<Rightarrow> buildConfig \<Rightarrow> path list \<Rightarrow> buildContext \<Rightarrow> buildContext" where
  "sassFilesDelivered h cfg [] ctx = ctx"
| "sassFilesDelivered h cfg (p # ps) ctx =
     sassFilesDelivered h cfg ps (snd (copySassFile h cfg p ctx))"

text \<open>
  \<^verbatim>\<open>copySourceSassFilesToDest\<close>: the outcome of the promise it returns, and the
  pending-write map at the moment that promise settles.
\<close>

definition copySourceSassFilesToDest :: "host \<Rightarrow> buildConfig \<Rightarrow> buildContext \<Rightarrow> compileResults
      \<Rightarrow> (err + unit) \<times> buildContext" where
  "copySourceSassFilesToDest h cfg ctx cr =
     (if \<not> generateCollection cfg then (Inr (), ctx)
      else copySassFiles h cfg (deliveryOrder h (includedSassFiles cr)) ctx)"

subsection \<open>\<^verbatim>\<open>compileSrcDir\<close>\<close>

definition initialCompileResults :: compileResults where
  "initialCompileResults =
     \<lparr>moduleFiles = Map.empty, diagnostics = [], manifest = EmptyManifest,
      includedSassFiles = []\<rparr>"

text \<open>
  The \<^verbatim>\<open>then\<close> callback that receives \<^verbatim>\<open>transpileResults\<close>: the diagnostics are
  concatenated, and the module files, when the transpiler returned any, are merged.
\<close>

definition mergeTranspileResults :: "buildConfig \<Rightarrow> transpileResults
      \<Rightarrow> compileResults \<times> buildContext \<Rightarrow> compileResults \<times> buildContext" where
  "mergeTranspileResults cfg transpileResults s =
     (let cr = fst s; ctx = snd s;
          cr1 = cr\<lparr>diagnostics := diagnostics cr @ tr_diagnostics transpileResults\<rparr>
      in case tr_moduleFiles transpileResults of
           None \<Rightarrow> (cr1, ctx)
         | Some kvs \<Rightarrow> mergeModuleFiles cfg kvs (cr1, ctx))"

text \<open>
  The \<^verbatim>\<open>then\<close> callbacks that follow the scan, up to the \<^verbatim>\<open>catch\<close>: the outcome of
  the chain (\<open>Inl\<close> when a callback rejected) and the two objects as the callbacks that ran
  have left them.
\<close>

definition afterScan :: "host \<Rightarrow> buildConfig \<Rightarrow> buildContext \<Rightarrow> compileResults
      \<Rightarrow> (err + unit) \<times> compileResults \<times> buildContext" where
  "afterScan h cfg ctx cr =
     (case transpile h cfg ctx (moduleFiles cr) of
        Inl e \<Rightarrow> (Inl e, cr, ctx)
      | Inr transpileResults \<Rightarrow>
          (let s2 = mergeTranspileResults cfg transpileResults (cr, ctx);
               cr2 = fst s2; ctx2 = snd s2
           in case generateManifest h cfg ctx2 cr2 of
                Inl e \<Rightarrow> (Inl e, cr2, ctx2)
              | Inr m \<Rightarrow>
                  (let cr3 = cr2\<lparr>manifest := m\<rparr>;
                       r = copySourceSassFilesToDest h cfg ctx2 cr3
                   in (fst r, cr3, snd r))))"

text \<open>The \<^verbatim>\<open>catch\<close> callback and the final \<^verbatim>\<open>then\<close>, which returns \<^verbatim>\<open>compileResults\<close>.\<close>

definition catchAndFinish :: "(err + unit) \<times> compileResults \<times> buildContext
      \<Rightarrow> compileResults \<times> buildContext" where
  "catchAndFinish r =
     (case r of
        (Inl e, cr, ctx) \<Rightarrow> (cr\<lparr>diagnostics := catchError (diagnostics cr) e\<rparr>, ctx)
      | (Inr u, cr, ctx) \<Rightarrow> (cr, ctx))"

text \<open>
  The whole pipeline on a source tree \<open>tree\<close> found at \<^verbatim>\<open>buildConfig.src\<close>: \<open>None\<close> when
  the returned promise never settles, otherwise the \<^verbatim>\<open>compileResults\<close> it resolves with
  and the build context at that moment.
\<close>

definition compileSrcDir :: "host \<Rightarrow> buildConfig \<Rightarrow> buildContext \<Rightarrow> fsnode
      \<Rightarrow> (compileResults \<times> buildContext) option" where
  "compileSrcDir h cfg ctx tree =
     (case scanDir h cfg ctx (src cfg) tree initialCompileResults of
        None \<Rightarrow> None
      | Some cr \<Rightarrow> Some (catchAndFinish (afterScan h cfg ctx cr)))"

section \<open>Notions used to state the properties\<close>

text \<open>The distinct elements of a list, each at the place of its first occurrence.\<close>

fun firstOccurrences :: "'a list \<Rightarrow> 'a list" where
  "firstOccurrences [] = []"
| "firstOccurrences (x # xs) = x # firstOccurrences (filter (\<lambda>y. y \<noteq> x) xs)"

text \<open>The asset paths one entry of \<^verbatim>\<open>transpileResults.moduleFiles\<close> references.\<close>

definition sassRefs :: "path \<times> moduleFile \<Rightarrow> path list" where
  "sassRefs kv = (case mf_includedSassFiles (snd kv) of None \<Rightarrow> [] | Some fs \<Rightarrow> fs)"

text \<open>
  What a scan adds to \<^verbatim>\<open>compileResults\<close>, laid over another value: the diagnostics
  are appended and the module files are written over the ones present.
\<close>

definition overlay :: "compileResults \<Rightarrow> compileResults \<Rightarrow> compileResults" where
  "overlay cr r = cr\<lparr>diagnostics := diagnostics cr @ diagnostics r,
                      moduleFiles := moduleFiles cr ++ moduleFiles r\<rparr>"


text \<open>\<^verbatim>\<open>readdir\<close> fails on every node but a listed directory.\<close>

definition readdirFails :: "fsnode \<Rightarrow> bool" where
  "readdirFails node = (case node of Dir files \<Rightarrow> False | _ \<Rightarrow> True)"


text \<open>
  The files a scan of the directory \<open>dir\<close> hands to \<^verbatim>\<open>getModuleFile\<close>: the
  typed-script files that are not excluded, in directories that are not excluded.
\<close>

fun scannedFiles :: "host \<Rightarrow> buildConfig \<Rightarrow> path \<Rightarrow> fsnode \<Rightarrow> path list" where
  "scannedFiles h cfg dir (Dir files) =
     concat (map (\<lambda>(n, node).
       if \<not> isValidDirectory (exclude cfg) (path_join h (normalizePath h dir) n) then []
       else (case node of
               File \<Rightarrow> if isTsSourceFile h (path_join h (normalizePath h dir) n)
                       then [path_join h (normalizePath h dir) n] else []
             | _ \<Rightarrow> scannedFiles h cfg (path_join h (normalizePath h dir) n) node)) files)"
| "scannedFiles h cfg dir File = []"
| "scannedFiles h cfg dir (StatFails e) = []"
| "scannedFiles h cfg dir (DirUnreadable e) = []"


text \<open>The failures of \<^verbatim>\<open>stat\<close> a tree holds.\<close>

fun statFailures :: "fsnode \<Rightarrow> err list" where
  "statFailures (StatFails e) = [e]"
| "statFailures (Dir files) = concat (map (\<lambda>(n, node). statFailures node) files)"
| "statFailures File = []"
| "statFailures (DirUnreadable e) = []"


text \<open>
  The files of a tree found at path \<open>p\<close>, each with the path the scan builds for it: the
  path of an entry is \<^verbatim>\<open>join\<close> of the normalised path of its directory and its name.
\<close>

fun treeFiles :: "host \<Rightarrow> path \<Rightarrow> fsnode \<Rightarrow> path list" where
  "treeFiles h p File = [p]"
| "treeFiles h p (Dir files) =
     concat (map (\<lambda>(n, node). treeFiles h (path_join h (normalizePath h p) n) node) files)"
| "treeFiles h p (StatFails e) = []"
| "treeFiles h p (DirUnreadable e) = []"

text \<open>A tree on which no \<^verbatim>\<open>stat\<close> and no \<^verbatim>\<open>readdir\<close> below the root fails.\<close>

fun errorFree :: "fsnode \<Rightarrow> bool" where
  "errorFree File = True"
| "errorFree (Dir files) = (\<forall>(n, node) \<in> set files. errorFree node)"
| "errorFree (StatFails e) = False"
| "errorFree (DirUnreadable e) = False"

text \<open>
  A compilable file: a path with a typed-script extension that no exclusion pattern
  matches; and the compilable files of the tree at the source root.
\<close>

definition compilable :: "host \<Rightarrow> buildConfig \<Rightarrow> path \<Rightarrow> bool" where
  "compilable h cfg p = (isTsSourceFile h p \<and> isValidDirectory (exclude cfg) p)"

definition compilableFiles :: "host \<Rightarrow> buildConfig \<Rightarrow> fsnode \<Rightarrow> path list" where
  "compilableFiles h cfg tree = filter (compilable h cfg) (treeFiles h (src cfg) tree)"

text \<open>
  What the scan needs of the collaborators that are not in the source.
  \<^verbatim>\<open>getModuleFile\<close> resolves on a compilable file, with a module file whose
  \<^verbatim>\<open>tsFilePath\<close> is the path it was asked for. The path of an entry of an excluded
  directory is excluded too, as it is when \<^verbatim>\<open>join\<close> keeps the path of the directory
  as the beginning of the path of the entry. \<^verbatim>\<open>transpile\<close> returns module files only
  under keys of the map it was given.
\<close>

definition loadsByPath :: "host \<Rightarrow> buildConfig \<Rightarrow> buildContext \<Rightarrow> bool" where
  "loadsByPath h cfg ctx =
     (\<forall>p. compilable h cfg p \<longrightarrow> (\<exists>mf. getModuleFile h cfg ctx p = Inr mf \<and> tsFilePath mf = p))"

definition exclusionInherited :: "host \<Rightarrow> buildConfig \<Rightarrow> bool" where
  "exclusionInherited h cfg =
     (\<forall>d n. \<not> isValidDirectory (exclude cfg) d \<longrightarrow>
        \<not> isValidDirectory (exclude cfg) (path_join h (normalizePath h d) n))"

definition transpilesRequested :: "host \<Rightarrow> buildConfig \<Rightarrow> buildContext \<Rightarrow> bool" where
  "transpilesRequested h cfg ctx =
     (\<forall>m tr kvs. transpile h cfg ctx m = Inr tr \<and> tr_moduleFiles tr = Some kvs \<longrightarrow>
        fst ` set kvs \<subseteq> dom m)"


subsection \<open>A concrete host, configuration and tree\<close>

text \<open>
  A POSIX-like host on which every collaborator succeeds, the configuration and the tree of
  the spec's example scenario. They serve to instantiate the theorems below.
\<close>

definition exampleHost :: host where
  "exampleHost =
     \<lparr>normalizePath = (\<lambda>p. p),
      path_join = (\<lambda>d n. d @ ''/'' @ n),
      path_relative = (\<lambda>base p. drop (Suc (length base)) p),
      isTsSourceFile = (\<lambda>p. suffix ''.ts'' p),
      getModuleFile = (\<lambda>cfg ctx p. Inr \<lparr>tsFilePath = p, jsFilePath = p @ ''.js'',
         jsText = ''js'', mf_includedSassFiles = None\<rparr>),
      readFile = (\<lambda>p. if p = ''/p/src/gone.scss'' then Inl ''ENOENT'' else Inr ''css''),
      transpile = (\<lambda>cfg ctx m. Inr \<lparr>tr_diagnostics = [], tr_moduleFiles = None\<rparr>),
      generateManifest = (\<lambda>cfg ctx cr. Inr EmptyManifest),
      readLatency = (\<lambda>p. 0)\<rparr>"

definition exampleConfig :: buildConfig where
  "exampleConfig =
     \<lparr>src = ''/p/src'', rootDir = ''/p'', collectionDest = ''/p/dist/collection'',
      exclude = [''ignored''], generateCollection = True\<rparr>"

definition exampleContext :: buildContext where
  "exampleContext = \<lparr>filesToWrite = Map.empty\<rparr>"

definition exampleTree :: fsnode where
  "exampleTree =
     Dir [(''a.ts'', File), (''b.ts'', File), (''sub'', Dir [(''c.ts'', File)]),
          (''ignored'', Dir [(''d.ts'', File)]), (''readme.md'', File)]"


text \<open>
  A Windows-like host: \<^verbatim>\<open>path.join\<close> answers with backslashes and
  \<^verbatim>\<open>normalizePath\<close> turns backslashes into slashes.
\<close>

definition toSlash :: "char \<Rightarrow> char" where
  "toSlash c = (if c = CHR 0x5C then CHR ''/'' else c)"

definition toBackslash :: "char \<Rightarrow> char" where
  "toBackslash c = (if c = CHR ''/'' then CHR 0x5C else c)"

definition windowsHost :: host where
  "windowsHost =
     exampleHost\<lparr>normalizePath := map toSlash,
                  path_join := (\<lambda>d n. map toBackslash (d @ ''/'' @ n))\<rparr>"

definition windowsConfig :: buildConfig where
  "windowsConfig =
     \<lparr>src = ''C:/p/src'', rootDir = ''C:/p'', collectionDest = ''C:/p/dist'',
      exclude = [], generateCollection = True\<rparr>"


text \<open>
  Variations of the example host. On the first \<^verbatim>\<open>transpile\<close> rejects, and
  \<^verbatim>\<open>getModuleFile\<close> would reject on a file of the excluded directory. On the second
  \<^verbatim>\<open>getModuleFile\<close> rejects everywhere. On the third the one module file references
  three assets: the read of \<^verbatim>\<open>gone.scss\<close> fails at once, the read of \<^verbatim>\<open>a.scss\<close>
  succeeds later, the read of \<^verbatim>\<open>lost.scss\<close> fails last.
\<close>

definition failingTranspileHost :: host where
  "failingTranspileHost =
     exampleHost\<lparr>transpile := (\<lambda>cfg ctx m. Inl ''transpile failed''),
                  getModuleFile := (\<lambda>cfg ctx p.
                     if p = ''/p/src/ignored/d.ts'' then Inl ''EACCES''
                     else Inr \<lparr>tsFilePath = p, jsFilePath = p @ ''.js'', jsText = ''js'',
                            mf_includedSassFiles = None\<rparr>)\<rparr>"

definition rejectingHost :: host where
  "rejectingHost = exampleHost\<lparr>getModuleFile := (\<lambda>cfg ctx p. Inl ''EACCES'')\<rparr>"



section \<open>Properties of the merge of module files\<close>

lemma set_firstOccurrences: "set (firstOccurrences xs) = set xs"
  by (induction xs rule: firstOccurrences.induct) auto

lemma distinct_firstOccurrences: "distinct (firstOccurrences xs)"
  by (induction xs rule: firstOccurrences.induct) (auto simp: set_firstOccurrences)

lemma firstOccurrences_distinct_id: "distinct xs \<Longrightarrow> firstOccurrences xs = xs"
proof (induction xs)
  case Nil
  then show ?case by simp
next
  case (Cons x xs)
  then have "filter (\<lambda>y. y \<noteq> x) xs = xs"
    by (auto intro: filter_True)
  with Cons show ?case by simp
qed

lemma pushSassFiles_eq:
  "pushSassFiles acc fs = acc @ firstOccurrences (filter (\<lambda>p. p \<notin> set acc) fs)"
proof (induction fs arbitrary: acc)
  case Nil
  then show ?case by simp
next
  case (Cons f fs)
  show ?case
  proof (cases "f \<in> set acc")
    case True
    then show ?thesis using Cons.IH [of acc] by simp
  next
    case False
    have "filter (\<lambda>p. p \<notin> set (acc @ [f])) fs = filter (\<lambda>y. y \<noteq> f) (filter (\<lambda>p. p \<notin> set acc) fs)"
      by (induction fs) auto
    then show ?thesis using False Cons.IH [of "acc @ [f]"] by simp
  qed
qed

lemma pushSassFiles_append:
  "pushSassFiles acc (xs @ ys) = pushSassFiles (pushSassFiles acc xs) ys"
  by (induction xs arbitrary: acc) simp_all

lemma includedSassFiles_mergeModuleFile:
  "includedSassFiles (fst (mergeModuleFile cfg kv s)) =
     pushSassFiles (includedSassFiles (fst s)) (sassRefs kv)"
  by (simp add: mergeModuleFile_def sassRefs_def Let_def split: option.split)

lemma includedSassFiles_mergeModuleFiles:
  "includedSassFiles (fst (mergeModuleFiles cfg kvs s)) =
     pushSassFiles (includedSassFiles (fst s)) (concat (map sassRefs kvs))"
  by (induction kvs arbitrary: s)
    (simp_all add: includedSassFiles_mergeModuleFile pushSassFiles_append)




section \<open>String search and exclusion\<close>

lemma indexOfFrom_ge: "k \<le> indexOfFrom s pat k \<or> indexOfFrom s pat k = - 1"
  by (induction s pat k rule: indexOfFrom.induct) auto

lemma indexOfFrom_found_iff: "0 \<le> k \<Longrightarrow> (indexOfFrom s pat k > - 1) = sublist pat s"
  by (induction s pat k rule: indexOfFrom.induct) (auto simp: sublist_Cons_right)

lemma indexOfFrom_start_iff: "0 \<le> k \<Longrightarrow> (indexOfFrom s pat k = k) = prefix pat s"
proof (induction s pat k rule: indexOfFrom.induct)
  case (1 pat k)
  then show ?case by auto
next
  case (2 c cs pat k)
  then show ?case using indexOfFrom_ge [of "k + 1" cs pat] by auto
qed

lemma indexOf_found_iff: "(indexOf s pat > - 1) = sublist pat s"
  by (simp add: indexOf_def indexOfFrom_found_iff)

lemma indexOf_zero_iff: "(indexOf s pat = 0) = prefix pat s"
  using indexOfFrom_start_iff [of 0 s pat] by (simp add: indexOf_def)

lemma isValidDirectory_iff:
  "isValidDirectory ex p = (\<forall>pat \<in> set ex. \<not> sublist pat p)"
  by (induction ex) (auto simp: indexOf_found_iff)


section \<open>The scan\<close>

lemma scanItems_Cons:
  "scanItems h cfg ctx dir ((n, nd) # es) cr =
     (if \<not> isValidDirectory (exclude cfg) (path_join h dir n) then scanItems h cfg ctx dir es cr
      else (case scanItem h cfg ctx (path_join h dir n) nd cr of
              None \<Rightarrow> None
            | Some cr' \<Rightarrow> scanItems h cfg ctx dir es cr'))"
  by (simp only: scanItems.simps Let_def)

declare scanItems.simps(2) [simp del]

lemma overlay_initial: "overlay cr initialCompileResults = cr"
  by (simp add: overlay_def initialCompileResults_def)

lemma overlay_fields:
  "diagnostics (overlay cr r) = diagnostics cr @ diagnostics r"
  "moduleFiles (overlay cr r) = moduleFiles cr ++ moduleFiles r"
  "manifest (overlay cr r) = manifest cr"
  "includedSassFiles (overlay cr r) = includedSassFiles cr"
  by (simp_all add: overlay_def)

lemma overlay_assoc: "overlay (overlay cr a) b = overlay cr (overlay a b)"
  by (simp add: overlay_def)

lemma scanItems_append:
  "scanItems h cfg ctx dir (es1 @ es2) cr =
     (case scanItems h cfg ctx dir es1 cr of
        None \<Rightarrow> None
      | Some cr' \<Rightarrow> scanItems h cfg ctx dir es2 cr')"
proof (induction es1 arbitrary: cr)
  case Nil
  then show ?case by simp
next
  case (Cons a es1)
  obtain n nd where a: "a = (n, nd)" by (cases a)
  show ?case
    unfolding a append_Cons scanItems_Cons
    by (simp add: Cons.IH split: option.split)
qed

lemma scanItems_frame_aux:
  assumes "\<And>n nd p c. (n, nd) \<in> set es \<Longrightarrow>
     scanItem h cfg ctx p nd c = map_option (overlay c) (scanItem h cfg ctx p nd initialCompileResults)"
  shows "scanItems h cfg ctx d es cr =
     map_option (overlay cr) (scanItems h cfg ctx d es initialCompileResults)"
  using assms
proof (induction es arbitrary: cr)
  case Nil
  then show ?case by (simp add: overlay_initial)
next
  case (Cons a es)
  obtain n nd where a: "a = (n, nd)" by (cases a)
  have item: "\<And>p c. scanItem h cfg ctx p nd c =
      map_option (overlay c) (scanItem h cfg ctx p nd initialCompileResults)"
  proof -
    have "(n, nd) \<in> set (a # es)" by (simp add: a)
    then show "\<And>p c. scanItem h cfg ctx p nd c =
      map_option (overlay c) (scanItem h cfg ctx p nd initialCompileResults)"
      by (rule Cons.prems)
  qed
  have rest: "\<And>c. scanItems h cfg ctx d es c =
      map_option (overlay c) (scanItems h cfg ctx d es initialCompileResults)"
  proof (rule Cons.IH)
    fix n' nd' p c
    assume "(n', nd') \<in> set es"
    then have "(n', nd') \<in> set (a # es)" by simp
    then show "scanItem h cfg ctx p nd' c =
      map_option (overlay c) (scanItem h cfg ctx p nd' initialCompileResults)"
      by (rule Cons.prems)
  qed
  show ?case
  proof (cases "isValidDirectory (exclude cfg) (path_join h d n)")
    case False
    then show ?thesis unfolding a scanItems_Cons using rest [of cr] by simp
  next
    case True
    show ?thesis
    proof (cases "scanItem h cfg ctx (path_join h d n) nd initialCompileResults")
      case None
      then show ?thesis
        unfolding a scanItems_Cons using True item [of "path_join h d n" cr] by simp
    next
      case (Some r1)
      have l: "scanItems h cfg ctx d (a # es) cr = scanItems h cfg ctx d es (overlay cr r1)"
        unfolding a scanItems_Cons using True Some item [of "path_join h d n" cr] by simp
      have r: "scanItems h cfg ctx d (a # es) initialCompileResults =
          scanItems h cfg ctx d es r1"
        unfolding a scanItems_Cons using True Some by simp
      have assoc: "overlay (overlay cr r1) = (\<lambda>x. overlay cr (overlay r1 x))"
        by (rule ext) (rule overlay_assoc)
      show ?thesis
        unfolding l r
        using rest [of "overlay cr r1"] rest [of r1]
        by (simp add: option.map_comp comp_def assoc)
    qed
  qed
qed

lemma scanItem_frame:
  "scanItem h cfg ctx p node cr =
     map_option (overlay cr) (scanItem h cfg ctx p node initialCompileResults)"
proof (induction node arbitrary: p cr)
  case (StatFails e)
  show ?case
    by (simp add: overlay_def catchError_def initialCompileResults_def)
next
  case File
  show ?case
    by (simp add: overlay_def initialCompileResults_def split: sum.split)
next
  case (DirUnreadable e)
  show ?case by (simp add: overlay_initial)
next
  case (Dir es)
  have "\<And>n nd p c. (n, nd) \<in> set es \<Longrightarrow>
     scanItem h cfg ctx p nd c = map_option (overlay c) (scanItem h cfg ctx p nd initialCompileResults)"
  proof -
    fix n nd p c
    assume "(n, nd) \<in> set es"
    then show "scanItem h cfg ctx p nd c = map_option (overlay c) (scanItem h cfg ctx p nd initialCompileResults)"
      by (intro Dir.IH [of "(n, nd)" nd p c]) simp_all
  qed
  then have "scanItems h cfg ctx (normalizePath h p) es cr =
     map_option (overlay cr) (scanItems h cfg ctx (normalizePath h p) es initialCompileResults)"
    by (rule scanItems_frame_aux)
  then show ?case by simp
qed

lemma scanItems_frame:
  "scanItems h cfg ctx d es cr =
     map_option (overlay cr) (scanItems h cfg ctx d es initialCompileResults)"
  by (rule scanItems_frame_aux) (rule scanItem_frame)

lemma scanDir_frame:
  "scanDir h cfg ctx d node cr =
     map_option (overlay cr) (scanDir h cfg ctx d node initialCompileResults)"
proof (cases node)
  case (Dir es)
  then show ?thesis using scanItems_frame [of h cfg ctx "normalizePath h d" es cr] by simp
qed (simp_all add: overlay_initial)

lemma scanItems_overlay:
  assumes "scanItems h cfg ctx d es cr = Some cr'"
  obtains r where "scanItems h cfg ctx d es initialCompileResults = Some r" and "cr' = overlay cr r"
  using assms scanItems_frame [of h cfg ctx d es cr] by (auto simp: map_option_case split: option.splits)

lemma scanItems_dom_mono:
  assumes "scanItems h cfg ctx d es cr = Some cr'"
  shows "dom (moduleFiles cr) \<subseteq> dom (moduleFiles cr')"
proof -
  from assms obtain r where "cr' = overlay cr r" by (rule scanItems_overlay)
  then show ?thesis by (simp add: overlay_fields)
qed

lemma scanItems_file_recorded:
  assumes "scanItems h cfg ctx dir es cr = Some cr'"
    and "(m, File) \<in> set es"
    and "isValidDirectory (exclude cfg) (path_join h dir m)"
    and "isTsSourceFile h (path_join h dir m)"
  shows "\<exists>mf. getModuleFile h cfg ctx (path_join h dir m) = Inr mf \<and> tsFilePath mf \<in> dom (moduleFiles cr')"
  using assms(1,2)
proof (induction es arbitrary: cr)
  case Nil
  then show ?case by simp
next
  case (Cons a es)
  obtain n nd where a: "a = (n, nd)" by (cases a)
  show ?case
  proof (cases "(m, File) = a")
    case True
    then have n: "n = m" and nd: "nd = File" by (simp_all add: a)
    from Cons.prems(1) obtain cr1 where
      item: "scanItem h cfg ctx (path_join h dir m) File cr = Some cr1"
      and rest: "scanItems h cfg ctx dir es cr1 = Some cr'"
      unfolding a n nd scanItems_Cons using assms(3) by (auto split: option.splits)
    from item assms(4) obtain mf where
      mf: "getModuleFile h cfg ctx (path_join h dir m) = Inr mf"
      and cr1: "cr1 = cr\<lparr>moduleFiles := (moduleFiles cr)(tsFilePath mf \<mapsto> mf)\<rparr>"
      by (auto split: sum.splits)
    have "tsFilePath mf \<in> dom (moduleFiles cr1)" by (simp add: cr1)
    then have "tsFilePath mf \<in> dom (moduleFiles cr')"
      using scanItems_dom_mono [OF rest] by blast
    with mf show ?thesis by blast
  next
    case False
    then have mem: "(m, File) \<in> set es" using Cons.prems(2) by auto
    show ?thesis
    proof (cases "isValidDirectory (exclude cfg) (path_join h dir n)")
      case False
      then have "scanItems h cfg ctx dir es cr = Some cr'"
        using Cons.prems(1) unfolding a scanItems_Cons by simp
      then show ?thesis using mem by (rule Cons.IH)
    next
      case True
      then obtain cr1 where "scanItems h cfg ctx dir es cr1 = Some cr'"
        using Cons.prems(1) unfolding a scanItems_Cons by (auto split: option.splits)
      then show ?thesis using mem by (rule Cons.IH)
    qed
  qed
qed

text \<open>The example host and configuration, evaluated.\<close>

lemma example_valid:
  "isValidDirectory (exclude exampleConfig) ''/p/src/a.ts''"
  "isValidDirectory (exclude exampleConfig) ''/p/src/b.ts''"
  "isValidDirectory (exclude exampleConfig) ''/p/src/broken''"
  "isValidDirectory (exclude exampleConfig) ''/p/src/sub''"
  "isValidDirectory (exclude exampleConfig) ''/p/src/sub/c.ts''"
  "isValidDirectory (exclude exampleConfig) ''/p/src/readme.md''"
  "isValidDirectory (exclude exampleConfig) ''/p/src/locked''"
  "\<not> isValidDirectory (exclude exampleConfig) ''/p/src/ignored''"
  "\<not> isValidDirectory (exclude exampleConfig) ''/p/src/ignored/d.ts''"
  by (simp_all add: exampleConfig_def indexOf_def)

lemma example_host:
  "path_join exampleHost d n = d @ ''/'' @ n"
  "normalizePath exampleHost p = p"
  "isTsSourceFile exampleHost p = suffix ''.ts'' p"
  "getModuleFile exampleHost cfg ctx p =
     Inr \<lparr>tsFilePath = p, jsFilePath = p @ ''.js'', jsText = ''js'', mf_includedSassFiles = None\<rparr>"
  "transpile exampleHost cfg ctx m = Inr \<lparr>tr_diagnostics = [], tr_moduleFiles = None\<rparr>"
  "generateManifest exampleHost cfg ctx cr = Inr EmptyManifest"
  by (simp_all add: exampleHost_def)

lemma example_ts:
  "suffix ''.ts'' ''/p/src/a.ts''"
  "suffix ''.ts'' ''/p/src/b.ts''"
  "suffix ''.ts'' ''/p/src/sub/c.ts''"
  "\<not> suffix ''.ts'' ''/p/src/readme.md''"
  by (simp_all add: suffix_to_prefix)

lemma example_config:
  "src exampleConfig = ''/p/src''"
  "rootDir exampleConfig = ''/p''"
  "collectionDest exampleConfig = ''/p/dist/collection''"
  "generateCollection exampleConfig"
  by (simp_all add: exampleConfig_def)

lemma failing_transpile_host:
  "path_join failingTranspileHost d n = d @ ''/'' @ n"
  "normalizePath failingTranspileHost p = p"
  "isTsSourceFile failingTranspileHost p = suffix ''.ts'' p"
  "getModuleFile failingTranspileHost cfg ctx p =
     (if p = ''/p/src/ignored/d.ts'' then Inl ''EACCES''
      else Inr \<lparr>tsFilePath = p, jsFilePath = p @ ''.js'', jsText = ''js'',
             mf_includedSassFiles = None\<rparr>)"
  "transpile failingTranspileHost cfg ctx m = Inl ''transpile failed''"
  by (simp_all add: failingTranspileHost_def exampleHost_def)

text \<open>
  Claim C3. A path is classified excluded exactly when some pattern of the exclude list
  occurs in it as a contiguous substring; in particular a path that contains none of them
  is never excluded. An excluded entry is skipped together with everything below it: the
  scan of a directory is the scan of the same directory with that entry and its whole
  subtree \<open>node\<close> taken out. Directory, siblings and state are arbitrary, so this holds at
  every level of the tree.
\<close>

theorem excluded_entry_is_skipped:
  "isValidDirectory (exclude cfg) p = (\<forall>P \<in> set (exclude cfg). \<not> sublist P p)
   \<and> (\<not> isValidDirectory (exclude cfg) (path_join h dir n) \<longrightarrow>
        scanItems h cfg ctx dir (es1 @ (n, node) # es2) cr = scanItems h cfg ctx dir (es1 @ es2) cr)"
proof -
  have "scanItems h cfg ctx dir (es1 @ (n, node) # es2) cr = scanItems h cfg ctx dir (es1 @ es2) cr"
    if "\<not> isValidDirectory (exclude cfg) (path_join h dir n)"
    using that
    by (simp add: scanItems_append [of h cfg ctx dir es1] scanItems_Cons split: option.split)
  then show ?thesis by (simp add: isValidDirectory_iff)
qed

theorem excluded_entry_is_skipped_witness:
  "\<not> isValidDirectory (exclude exampleConfig) ''/p/src/ignored''
   \<and> scanItems exampleHost exampleConfig exampleContext ''/p/src''
        ([(''a.ts'', File)] @ (''ignored'', Dir [(''d.ts'', File)]) # [(''b.ts'', File)]) initialCompileResults =
      scanItems exampleHost exampleConfig exampleContext ''/p/src''
        ([(''a.ts'', File)] @ [(''b.ts'', File)]) initialCompileResults"
proof -
  have inv: "\<not> isValidDirectory (exclude exampleConfig) ''/p/src/ignored''"
    by (simp add: exampleConfig_def indexOf_def)
  have j: "path_join exampleHost ''/p/src'' ''ignored'' = ''/p/src/ignored''"
    by (simp add: exampleHost_def)
  show ?thesis
    using excluded_entry_is_skipped [of exampleConfig "''/p/src/ignored''" exampleHost "''/p/src''"
        "''ignored''" exampleContext "[(''a.ts'', File)]" "Dir [(''d.ts'', File)]" "[(''b.ts'', File)]"
        initialCompileResults] inv j
    by simp
qed

text \<open>
  Claim C6. When \<^verbatim>\<open>stat\<close> fails on one entry of a directory (an entry that is not
  excluded, since only those are looked at), and the scan of its siblings alone resolves,
  then the scan with the entry resolves too, with the same module files and with the same
  diagnostics plus exactly one record, the one of the failure. Every sibling file that is
  compilable and not excluded has its module file in the map.
\<close>

theorem stat_failure_is_local:
  assumes valid: "isValidDirectory (exclude cfg) (path_join h dir n)"
    and rest: "scanItems h cfg ctx dir (es1 @ es2) cr = Some crW"
  shows "\<exists>crV ds1 ds2.
       scanItems h cfg ctx dir (es1 @ (n, StatFails e) # es2) cr = Some crV
     \<and> moduleFiles crV = moduleFiles crW
     \<and> diagnostics crW = ds1 @ ds2
     \<and> diagnostics crV = ds1 @ diagnosticOf e # ds2
     \<and> (\<forall>m. (m, File) \<in> set (es1 @ es2)
            \<and> isValidDirectory (exclude cfg) (path_join h dir m)
            \<and> isTsSourceFile h (path_join h dir m) \<longrightarrow>
          (\<exists>mf. getModuleFile h cfg ctx (path_join h dir m) = Inr mf
             \<and> tsFilePath mf \<in> dom (moduleFiles crV)))"
proof -
  from rest obtain cr1 where
    s1: "scanItems h cfg ctx dir es1 cr = Some cr1"
    and s2: "scanItems h cfg ctx dir es2 cr1 = Some crW"
    by (auto simp: scanItems_append [of h cfg ctx dir es1] split: option.splits)
  from s2 obtain r2 where
    r2: "scanItems h cfg ctx dir es2 initialCompileResults = Some r2"
    and crW: "crW = overlay cr1 r2"
    by (rule scanItems_overlay)
  let ?cr1' = "cr1\<lparr>diagnostics := catchError (diagnostics cr1) e\<rparr>"
  let ?crV = "overlay ?cr1' r2"
  have s2': "scanItems h cfg ctx dir es2 ?cr1' = Some ?crV"
    using scanItems_frame [of h cfg ctx dir es2 ?cr1'] r2 by simp
  have run: "scanItems h cfg ctx dir (es1 @ (n, StatFails e) # es2) cr = Some ?crV"
    using s1 s2' valid
    by (simp add: scanItems_append [of h cfg ctx dir es1] scanItems_Cons split: option.split)
  have mods: "moduleFiles ?crV = moduleFiles crW"
    by (simp add: crW overlay_fields)
  have d1: "diagnostics crW = diagnostics cr1 @ diagnostics r2"
    by (simp add: crW overlay_fields)
  have d2: "diagnostics ?crV = diagnostics cr1 @ diagnosticOf e # diagnostics r2"
    by (simp add: overlay_fields catchError_def)
  have files: "\<forall>m. (m, File) \<in> set (es1 @ es2)
            \<and> isValidDirectory (exclude cfg) (path_join h dir m)
            \<and> isTsSourceFile h (path_join h dir m) \<longrightarrow>
          (\<exists>mf. getModuleFile h cfg ctx (path_join h dir m) = Inr mf
             \<and> tsFilePath mf \<in> dom (moduleFiles ?crV))"
    unfolding mods using scanItems_file_recorded [OF rest] by blast
  from run mods d1 d2 files show ?thesis by blast
qed


theorem stat_failure_is_local_witness:
  "\<exists>crV. scanItems exampleHost exampleConfig exampleContext ''/p/src''
       ([(''a.ts'', File)] @ (''broken'', StatFails ''EIO'') # [(''b.ts'', File)])
       initialCompileResults = Some crV
     \<and> diagnostics crV = [diagnosticOf ''EIO'']
     \<and> ''/p/src/a.ts'' \<in> dom (moduleFiles crV)
     \<and> ''/p/src/b.ts'' \<in> dom (moduleFiles crV)"
proof -
  have valid: "isValidDirectory (exclude exampleConfig) (path_join exampleHost ''/p/src'' ''broken'')"
    by (simp add: example_host example_valid)
  obtain crW where rest: "scanItems exampleHost exampleConfig exampleContext ''/p/src''
      ([(''a.ts'', File)] @ [(''b.ts'', File)]) initialCompileResults = Some crW"
    and dW: "diagnostics crW = []"
    by (simp add: scanItems_Cons example_host example_valid example_ts initialCompileResults_def)
  from stat_failure_is_local [OF valid rest, of "''EIO''"]
  obtain crV ds1 ds2 where
    run: "scanItems exampleHost exampleConfig exampleContext ''/p/src''
       ([(''a.ts'', File)] @ (''broken'', StatFails ''EIO'') # [(''b.ts'', File)])
       initialCompileResults = Some crV"
    and d1: "diagnostics crW = ds1 @ ds2"
    and d2: "diagnostics crV = ds1 @ diagnosticOf ''EIO'' # ds2"
    and files: "\<forall>m. (m, File) \<in> set ([(''a.ts'', File)] @ [(''b.ts'', File)])
            \<and> isValidDirectory (exclude exampleConfig) (path_join exampleHost ''/p/src'' m)
            \<and> isTsSourceFile exampleHost (path_join exampleHost ''/p/src'' m) \<longrightarrow>
          (\<exists>mf. getModuleFile exampleHost exampleConfig exampleContext (path_join exampleHost ''/p/src'' m) = Inr mf
             \<and> tsFilePath mf \<in> dom (moduleFiles crV))"
    by blast
  have a: "''/p/src/a.ts'' \<in> dom (moduleFiles crV)"
    using files [rule_format, of "''a.ts''"]
    by (simp add: example_host example_valid example_ts)
  have b: "''/p/src/b.ts'' \<in> dom (moduleFiles crV)"
    using files [rule_format, of "''b.ts''"]
    by (simp add: example_host example_valid example_ts)
  from d1 dW d2 have "diagnostics crV = [diagnosticOf ''EIO'']" by simp
  with run a b show ?thesis by blast
qed



section \<open>Asset mirroring\<close>

text \<open>
  Claim C8. With \<^verbatim>\<open>generateCollection\<close> false the mirroring step resolves at once and
  the pending-write map is the one it was given, whatever asset paths were collected.
\<close>

theorem no_collection_no_asset_writes:
  "\<not> generateCollection cfg \<Longrightarrow> copySourceSassFilesToDest h cfg ctx cr = (Inr (), ctx)"
  by (simp add: copySourceSassFilesToDest_def)

theorem no_collection_no_asset_writes_witness:
  "copySourceSassFilesToDest exampleHost (exampleConfig\<lparr>generateCollection := False\<rparr>)
     exampleContext (initialCompileResults\<lparr>includedSassFiles := [''/p/src/a.scss'']\<rparr>) =
   (Inr (), exampleContext)"
  using no_collection_no_asset_writes [of "exampleConfig\<lparr>generateCollection := False\<rparr>"
      exampleHost exampleContext "initialCompileResults\<lparr>includedSassFiles := [''/p/src/a.scss'']\<rparr>"]
  by simp

lemma copySassFile_fails:
  "readFile h (normalizePath h a) = Inl e \<Longrightarrow> copySassFile h cfg a ctx = (Inl e, ctx)"
  by (simp add: copySassFile_def)

lemma copySassFile_reads:
  "readFile h (normalizePath h a) = Inr t \<Longrightarrow>
     copySassFile h cfg a ctx =
       (Inr (), ctx\<lparr>filesToWrite := (filesToWrite ctx)(sassDestPath h cfg (normalizePath h a) \<mapsto> t)\<rparr>)"
  by (simp add: copySassFile_def)


lemma copySassFiles_all_read:
  "\<forall>b \<in> set ps. \<exists>t. readFile h (normalizePath h b) = Inr t \<Longrightarrow>
     copySassFiles h cfg ps ctx = (Inr (), sassFilesDelivered h cfg ps ctx)"
  by (induction ps arbitrary: ctx) (auto simp: copySassFile_def)


lemma sassFilesDelivered_append:
  "sassFilesDelivered h cfg (xs @ ys) ctx =
     sassFilesDelivered h cfg ys (sassFilesDelivered h cfg xs ctx)"
  by (induction xs arbitrary: ctx) simp_all






text \<open>
  Claim C5, amended. The destination is computed from the normalised asset path \<open>p\<close> and
  is itself normalised: when \<^verbatim>\<open>buildConfig.src\<close> is a prefix of \<open>p\<close> it is
  \<^verbatim>\<open>normalizePath(join(collectionDest, relative(src, p)))\<close>, otherwise
  \<^verbatim>\<open>normalizePath(join(rootDir, relative(rootDir, p)))\<close>. An asset whose read succeeds
  is written under that key; one whose read fails is not written.
\<close>

theorem asset_destination:
  "sassDestPath h cfg p =
     (if prefix (src cfg) p
      then normalizePath h (path_join h (collectionDest cfg) (path_relative h (src cfg) p))
      else normalizePath h (path_join h (rootDir cfg) (path_relative h (rootDir cfg) p)))
   \<and> copySassFile h cfg a ctx =
       (case readFile h (normalizePath h a) of
          Inl e \<Rightarrow> (Inl e, ctx)
        | Inr t \<Rightarrow> (Inr (), ctx\<lparr>filesToWrite :=
                     (filesToWrite ctx)(sassDestPath h cfg (normalizePath h a) \<mapsto> t)\<rparr>))"
  by (simp add: sassDestPath_def copySassFile_def indexOf_zero_iff Let_def)

text \<open>
  The claim as stated leaves the normalisation out. On the Windows-like host the asset
  \<^verbatim>\<open>C:/p/src/a.scss\<close> lies inside the source root, nothing is written under
  \<^verbatim>\<open>join(collectionDest, relative(src, assetPath))\<close>, and the entry is found under the
  normalised path.
\<close>

theorem asset_destination_counterexample:
  "prefix (src windowsConfig) (normalizePath windowsHost ''C:/p/src/a.scss'')
   \<and> filesToWrite (snd (copySassFile windowsHost windowsConfig ''C:/p/src/a.scss'' exampleContext))
        (path_join windowsHost (collectionDest windowsConfig)
           (path_relative windowsHost (src windowsConfig) ''C:/p/src/a.scss'')) = None
   \<and> filesToWrite (snd (copySassFile windowsHost windowsConfig ''C:/p/src/a.scss'' exampleContext))
        ''C:/p/dist/a.scss'' = Some ''css''"
  by (simp add: windowsHost_def windowsConfig_def exampleHost_def exampleContext_def
      copySassFile_def sassDestPath_def indexOf_def toSlash_def toBackslash_def Let_def)







section \<open>The pipeline\<close>

text \<open>
  The scan resolves on every tree, whatever \<^verbatim>\<open>stat\<close> and \<^verbatim>\<open>readdir\<close> failures it
  meets, as long as \<^verbatim>\<open>getModuleFile\<close> does not reject on a file the scan hands to it.
\<close>

lemma scanItems_resolves_aux:
  assumes sub: "\<And>n nd q c. (n, nd) \<in> set es \<Longrightarrow>
      \<forall>p \<in> set (scannedFiles h cfg q nd). \<exists>mf. getModuleFile h cfg ctx p = Inr mf \<Longrightarrow>
      \<exists>c'. scanDir h cfg ctx q nd c = Some c'"
    and loaded: "\<forall>p \<in> set (concat (map (\<lambda>(n, node).
       if \<not> isValidDirectory (exclude cfg) (path_join h d n) then []
       else (case node of
               File \<Rightarrow> if isTsSourceFile h (path_join h d n) then [path_join h d n] else []
             | _ \<Rightarrow> scannedFiles h cfg (path_join h d n) node)) es)).
       \<exists>mf. getModuleFile h cfg ctx p = Inr mf"
  shows "\<exists>cr'. scanItems h cfg ctx d es cr = Some cr'"
  using sub loaded
proof (induction es arbitrary: cr)
  case Nil
  then show ?case by simp
next
  case (Cons a es)
  obtain n nd where a: "a = (n, nd)" by (cases a)
  let ?p = "path_join h d n"
  have rest: "\<exists>cr'. scanItems h cfg ctx d es c = Some cr'" for c
  proof (rule Cons.IH)
    fix n' nd' q c0
    assume "(n', nd') \<in> set es"
      and l: "\<forall>p \<in> set (scannedFiles h cfg q nd'). \<exists>mf. getModuleFile h cfg ctx p = Inr mf"
    then have "(n', nd') \<in> set (a # es)" by simp
    then show "\<exists>c'. scanDir h cfg ctx q nd' c0 = Some c'" using l by (rule Cons.prems(1))
  next
    show "\<forall>p \<in> set (concat (map (\<lambda>(n, node).
       if \<not> isValidDirectory (exclude cfg) (path_join h d n) then []
       else (case node of
               File \<Rightarrow> if isTsSourceFile h (path_join h d n) then [path_join h d n] else []
             | _ \<Rightarrow> scannedFiles h cfg (path_join h d n) node)) es)).
       \<exists>mf. getModuleFile h cfg ctx p = Inr mf"
      using Cons.prems(2) by simp
  qed
  show ?case
  proof (cases "isValidDirectory (exclude cfg) ?p")
    case False
    then show ?thesis unfolding a scanItems_Cons using rest [of cr] by simp
  next
    case True
    have "\<exists>c1. scanItem h cfg ctx ?p nd cr = Some c1"
    proof (cases nd)
      case (StatFails e)
      then show ?thesis by simp
    next
      case File
      show ?thesis
      proof (cases "isTsSourceFile h ?p")
        case ts: True
        have "\<exists>mf. getModuleFile h cfg ctx ?p = Inr mf"
          using Cons.prems(2) True ts by (simp add: a File)
        then show ?thesis using ts File by auto
      next
        case False
        then show ?thesis using File by simp
      qed
    next
      case (DirUnreadable e)
      then show ?thesis by simp
    next
      case (Dir fs)
      have "(n, nd) \<in> set (a # es)" by (simp add: a)
      moreover have "\<forall>p \<in> set (scannedFiles h cfg ?p nd). \<exists>mf. getModuleFile h cfg ctx p = Inr mf"
        using Cons.prems(2) True by (simp add: a Dir)
      ultimately have "\<exists>c'. scanDir h cfg ctx ?p nd cr = Some c'"
        by (rule Cons.prems(1))
      then show ?thesis using Dir by simp
    qed
    then obtain c1 where "scanItem h cfg ctx ?p nd cr = Some c1" by blast
    then show ?thesis
      unfolding a scanItems_Cons using True rest [of c1] by simp
  qed
qed

lemma scanDir_resolves:
  "\<forall>p \<in> set (scannedFiles h cfg dir node). \<exists>mf. getModuleFile h cfg ctx p = Inr mf \<Longrightarrow>
     \<exists>cr'. scanDir h cfg ctx dir node cr = Some cr'"
proof (induction node arbitrary: dir cr)
  case (Dir es)
  have "\<exists>cr'. scanItems h cfg ctx (normalizePath h dir) es cr = Some cr'"
  proof (rule scanItems_resolves_aux)
    fix n nd q c
    assume "(n, nd) \<in> set es"
      and "\<forall>p \<in> set (scannedFiles h cfg q nd). \<exists>mf. getModuleFile h cfg ctx p = Inr mf"
    then show "\<exists>c'. scanDir h cfg ctx q nd c = Some c'"
      by (intro Dir.IH [of "(n, nd)" nd q c]) simp_all
  next
    show "\<forall>p \<in> set (concat (map (\<lambda>(n, node).
       if \<not> isValidDirectory (exclude cfg) (path_join h (normalizePath h dir) n) then []
       else (case node of
               File \<Rightarrow> if isTsSourceFile h (path_join h (normalizePath h dir) n)
                       then [path_join h (normalizePath h dir) n] else []
             | _ \<Rightarrow> scannedFiles h cfg (path_join h (normalizePath h dir) n) node)) es)).
       \<exists>mf. getModuleFile h cfg ctx p = Inr mf"
      using Dir.prems by simp
  qed
  then show ?case by simp
qed simp_all

text \<open>
  The only diagnostics a scan records are those of \<^verbatim>\<open>stat\<close> failures; a failure of
  \<^verbatim>\<open>readdir\<close> leaves none.
\<close>

lemma scanItems_diagnostics_aux:
  assumes item: "\<And>n nd q c c'. (n, nd) \<in> set es \<Longrightarrow> scanItem h cfg ctx q nd c = Some c' \<Longrightarrow>
      set (diagnostics c') \<subseteq> set (diagnostics c) \<union> diagnosticOf ` set (statFailures nd)"
  shows "scanItems h cfg ctx d es cr = Some cr' \<Longrightarrow>
     set (diagnostics cr') \<subseteq> set (diagnostics cr) \<union>
       diagnosticOf ` set (concat (map (\<lambda>(n, node). statFailures node) es))"
  using item
proof (induction es arbitrary: cr)
  case Nil
  then show ?case by simp
next
  case (Cons a es)
  obtain n nd where a: "a = (n, nd)" by (cases a)
  let ?rest = "diagnosticOf ` set (concat (map (\<lambda>(n, node). statFailures node) es))"
  have rest: "set (diagnostics cr') \<subseteq> set (diagnostics c) \<union> ?rest"
    if "scanItems h cfg ctx d es c = Some cr'" for c
    using that
  proof (rule Cons.IH)
    fix n' nd' q c0 c0'
    assume "(n', nd') \<in> set es" and s: "scanItem h cfg ctx q nd' c0 = Some c0'"
    then have "(n', nd') \<in> set (a # es)" by simp
    then show "set (diagnostics c0') \<subseteq> set (diagnostics c0) \<union> diagnosticOf ` set (statFailures nd')"
      using s by (rule Cons.prems(2))
  qed
  have split: "diagnosticOf ` set (concat (map (\<lambda>(n, node). statFailures node) (a # es))) =
      diagnosticOf ` set (statFailures nd) \<union> ?rest"
    by (simp add: a image_Un)
  show ?case
  proof (cases "isValidDirectory (exclude cfg) (path_join h d n)")
    case False
    then have "scanItems h cfg ctx d es cr = Some cr'"
      using Cons.prems(1) unfolding a scanItems_Cons by simp
    from rest [OF this] show ?thesis unfolding split by blast
  next
    case True
    then obtain c1 where c1: "scanItem h cfg ctx (path_join h d n) nd cr = Some c1"
      and r: "scanItems h cfg ctx d es c1 = Some cr'"
      using Cons.prems(1) unfolding a scanItems_Cons by (auto split: option.splits)
    have "(n, nd) \<in> set (a # es)" by (simp add: a)
    from Cons.prems(2) [OF this c1]
    have "set (diagnostics c1) \<subseteq> set (diagnostics cr) \<union> diagnosticOf ` set (statFailures nd)" .
    with rest [OF r] show ?thesis unfolding split by blast
  qed
qed

lemma scanItem_diagnostics:
  "scanItem h cfg ctx p node cr = Some cr' \<Longrightarrow>
     set (diagnostics cr') \<subseteq> set (diagnostics cr) \<union> diagnosticOf ` set (statFailures node)"
proof (induction node arbitrary: p cr cr')
  case (StatFails e)
  then show ?case by (auto simp: catchError_def)
next
  case File
  then show ?case by (auto split: if_splits sum.splits)
next
  case (DirUnreadable e)
  then show ?case by simp
next
  case (Dir es)
  from Dir.prems have run: "scanItems h cfg ctx (normalizePath h p) es cr = Some cr'" by simp
  have "set (diagnostics cr') \<subseteq> set (diagnostics cr) \<union>
       diagnosticOf ` set (concat (map (\<lambda>(n, node). statFailures node) es))"
  proof (rule scanItems_diagnostics_aux [OF _ run])
    fix n nd q c c'
    assume mem: "(n, nd) \<in> set es" and s: "scanItem h cfg ctx q nd c = Some c'"
    show "set (diagnostics c') \<subseteq> set (diagnostics c) \<union> diagnosticOf ` set (statFailures nd)"
      by (rule Dir.IH [of "(n, nd)" nd q c c']) (simp_all add: mem s)
  qed
  then show ?case by simp
qed

lemma scanDir_diagnostics:
  assumes "scanDir h cfg ctx d tree initialCompileResults = Some cr"
  shows "set (diagnostics cr) \<subseteq> diagnosticOf ` set (statFailures tree)"
proof (cases tree)
  case (Dir es)
  then have "scanItem h cfg ctx d tree initialCompileResults = Some cr" using assms by simp
  from scanItem_diagnostics [OF this] show ?thesis by (simp add: initialCompileResults_def)
qed (use assms in \<open>auto simp: initialCompileResults_def\<close>)

text \<open>
  Claim C1, amended. As long as \<^verbatim>\<open>getModuleFile\<close> does not reject on a file the scan
  hands to it, the pipeline resolves with a \<^verbatim>\<open>compileResults\<close> value on every tree,
  whatever failures of \<^verbatim>\<open>stat\<close> and \<^verbatim>\<open>readdir\<close> the scan meets. Of these the scan
  records the \<^verbatim>\<open>stat\<close> failures only. A rejection of \<^verbatim>\<open>transpile\<close>, a fault of
  \<^verbatim>\<open>generateManifest\<close> or a rejection of the mirroring step is turned into one
  diagnostic, appended to what the phases before it have accumulated; when no phase
  faults, nothing is appended.
\<close>

theorem pipeline_resolves:
  assumes loads: "\<forall>p \<in> set (scannedFiles h cfg (src cfg) tree).
      \<exists>mf. getModuleFile h cfg ctx p = Inr mf"
  shows "\<exists>cr res ctx'.
       scanDir h cfg ctx (src cfg) tree initialCompileResults = Some cr
     \<and> set (diagnostics cr) \<subseteq> diagnosticOf ` set (statFailures tree)
     \<and> compileSrcDir h cfg ctx tree = Some (res, ctx')
     \<and> (\<forall>e. transpile h cfg ctx (moduleFiles cr) = Inl e \<longrightarrow>
            res = cr\<lparr>diagnostics := diagnostics cr @ [diagnosticOf e]\<rparr>)
     \<and> (\<forall>tr cr2 ctx2. transpile h cfg ctx (moduleFiles cr) = Inr tr
            \<and> mergeTranspileResults cfg tr (cr, ctx) = (cr2, ctx2) \<longrightarrow>
          (\<forall>e. generateManifest h cfg ctx2 cr2 = Inl e \<longrightarrow>
             res = cr2\<lparr>diagnostics := diagnostics cr2 @ [diagnosticOf e]\<rparr>)
        \<and> (\<forall>m. generateManifest h cfg ctx2 cr2 = Inr m \<longrightarrow>
             (\<forall>e. fst (copySourceSassFilesToDest h cfg ctx2 (cr2\<lparr>manifest := m\<rparr>)) = Inl e \<longrightarrow>
                res = cr2\<lparr>manifest := m, diagnostics := diagnostics cr2 @ [diagnosticOf e]\<rparr>)
           \<and> (fst (copySourceSassFilesToDest h cfg ctx2 (cr2\<lparr>manifest := m\<rparr>)) = Inr () \<longrightarrow>
                res = cr2\<lparr>manifest := m\<rparr>)))"
proof -
  from scanDir_resolves [OF loads, of initialCompileResults] obtain cr where
    scan: "scanDir h cfg ctx (src cfg) tree initialCompileResults = Some cr" by blast
  have recorded: "set (diagnostics cr) \<subseteq> diagnosticOf ` set (statFailures tree)"
    using scan by (rule scanDir_diagnostics)
  let ?r = "catchAndFinish (afterScan h cfg ctx cr)"
  have run: "compileSrcDir h cfg ctx tree = Some (fst ?r, snd ?r)"
    by (simp add: compileSrcDir_def scan)
  have t: "fst ?r = cr\<lparr>diagnostics := diagnostics cr @ [diagnosticOf e]\<rparr>"
    if "transpile h cfg ctx (moduleFiles cr) = Inl e" for e
    using that by (simp add: afterScan_def catchAndFinish_def catchError_def)
  have m: "fst ?r = cr2\<lparr>diagnostics := diagnostics cr2 @ [diagnosticOf e]\<rparr>"
    if "transpile h cfg ctx (moduleFiles cr) = Inr tr"
      and "mergeTranspileResults cfg tr (cr, ctx) = (cr2, ctx2)"
      and "generateManifest h cfg ctx2 cr2 = Inl e" for tr cr2 ctx2 e
    using that by (simp add: afterScan_def catchAndFinish_def catchError_def Let_def)
  have c: "fst ?r = cr2\<lparr>manifest := m, diagnostics := diagnostics cr2 @ [diagnosticOf e]\<rparr>"
    if "transpile h cfg ctx (moduleFiles cr) = Inr tr"
      and "mergeTranspileResults cfg tr (cr, ctx) = (cr2, ctx2)"
      and "generateManifest h cfg ctx2 cr2 = Inr m"
      and "fst (copySourceSassFilesToDest h cfg ctx2 (cr2\<lparr>manifest := m\<rparr>)) = Inl e" for tr cr2 ctx2 m e
    using that by (simp add: afterScan_def catchAndFinish_def catchError_def Let_def)
  have ok: "fst ?r = cr2\<lparr>manifest := m\<rparr>"
    if "transpile h cfg ctx (moduleFiles cr) = Inr tr"
      and "mergeTranspileResults cfg tr (cr, ctx) = (cr2, ctx2)"
      and "generateManifest h cfg ctx2 cr2 = Inr m"
      and "fst (copySourceSassFilesToDest h cfg ctx2 (cr2\<lparr>manifest := m\<rparr>)) = Inr ()" for tr cr2 ctx2 m
    using that by (simp add: afterScan_def catchAndFinish_def catchError_def Let_def)
  show ?thesis
    apply (rule exI [of _ cr])
    apply (rule exI [of _ "fst ?r"])
    apply (rule exI [of _ "snd ?r"])
    using scan recorded run t m c ok by blast
qed

theorem pipeline_resolves_witness:
  "\<exists>res ctx'. compileSrcDir failingTranspileHost exampleConfig exampleContext exampleTree = Some (res, ctx')
     \<and> diagnostics res = [diagnosticOf ''transpile failed'']"
proof -
  have "scannedFiles failingTranspileHost exampleConfig (src exampleConfig) exampleTree =
      [''/p/src/a.ts'', ''/p/src/b.ts'', ''/p/src/sub/c.ts'']"
    by (simp add: exampleTree_def example_config failing_transpile_host example_valid example_ts)
  then have loads: "\<forall>p \<in> set (scannedFiles failingTranspileHost exampleConfig (src exampleConfig) exampleTree).
      \<exists>mf. getModuleFile failingTranspileHost exampleConfig exampleContext p = Inr mf"
    by (simp add: failing_transpile_host)
  from pipeline_resolves [OF loads]
  obtain cr res ctx' where
    scan: "scanDir failingTranspileHost exampleConfig exampleContext (src exampleConfig) exampleTree
        initialCompileResults = Some cr"
    and run: "compileSrcDir failingTranspileHost exampleConfig exampleContext exampleTree = Some (res, ctx')"
    and t: "\<forall>e. transpile failingTranspileHost exampleConfig exampleContext (moduleFiles cr) = Inl e \<longrightarrow>
            res = cr\<lparr>diagnostics := diagnostics cr @ [diagnosticOf e]\<rparr>"
    by blast
  have "map_option diagnostics
      (scanDir failingTranspileHost exampleConfig exampleContext (src exampleConfig) exampleTree
         initialCompileResults) = Some []"
    by (simp add: example_config exampleTree_def scanItems_Cons failing_transpile_host
        example_valid example_ts initialCompileResults_def)
  then have d: "diagnostics cr = []"
    using scan by simp
  have "transpile failingTranspileHost exampleConfig exampleContext (moduleFiles cr) = Inl ''transpile failed''"
    by (simp add: failing_transpile_host)
  with t have "res = cr\<lparr>diagnostics := diagnostics cr @ [diagnosticOf ''transpile failed'']\<rparr>"
    by blast
  with d run show ?thesis by simp
qed

text \<open>
  The claim as stated has every fault of the scanning phase converted into a diagnostic.
  A \<^verbatim>\<open>readdir\<close> failure is not: the callback resolves without recording anything. On
  a tree with one unreadable directory the pipeline resolves with no diagnostic at all.
\<close>

theorem pipeline_resolves_counterexample:
  "map_option (diagnostics \<circ> fst)
     (compileSrcDir exampleHost exampleConfig exampleContext
        (Dir [(''a.ts'', File), (''locked'', DirUnreadable ''EACCES'')])) = Some []"
  by (simp add: compileSrcDir_def afterScan_def catchAndFinish_def mergeTranspileResults_def
      copySourceSassFilesToDest_def deliveryOrder_def scanItems_Cons example_host example_config
      example_valid example_ts initialCompileResults_def Let_def)

text \<open>
  What the amended claim leaves out: when \<^verbatim>\<open>getModuleFile\<close> rejects, the promise of
  that entry is never resolved, the rejection reaches no \<^verbatim>\<open>catch\<close>, and the promise of
  the pipeline never settles.
\<close>

lemma rejected_module_read_never_settles:
  "compileSrcDir rejectingHost exampleConfig exampleContext (Dir [(''a.ts'', File)]) = None"
  by (simp add: compileSrcDir_def scanItems_Cons rejectingHost_def exampleHost_def
      example_config example_valid example_ts)

text \<open>
  Claim C4, amended. When \<^verbatim>\<open>readdir\<close> fails on the source root, the scan resolves
  with the results it started from, that is with no module file and with no diagnostic
  recorded for the root; the build is not aborted, the pipeline goes on from the empty
  results.
\<close>

theorem unreadable_root_is_silent:
  "readdirFails tree \<Longrightarrow>
     scanDir h cfg ctx (src cfg) tree initialCompileResults = Some initialCompileResults
     \<and> moduleFiles initialCompileResults = Map.empty
     \<and> diagnostics initialCompileResults = []
     \<and> compileSrcDir h cfg ctx tree =
         Some (catchAndFinish (afterScan h cfg ctx initialCompileResults))"
  by (cases tree) (simp_all add: readdirFails_def compileSrcDir_def initialCompileResults_def)

theorem unreadable_root_is_silent_witness:
  "scanDir exampleHost exampleConfig exampleContext (src exampleConfig) (StatFails ''ENOENT'')
     initialCompileResults = Some initialCompileResults
   \<and> compileSrcDir exampleHost exampleConfig exampleContext (StatFails ''ENOENT'') =
       Some (initialCompileResults, exampleContext)"
  using unreadable_root_is_silent [of "StatFails ''ENOENT''" exampleHost exampleConfig exampleContext]
  by (simp add: readdirFails_def afterScan_def catchAndFinish_def mergeTranspileResults_def
      copySourceSassFilesToDest_def deliveryOrder_def example_host example_config
      initialCompileResults_def Let_def)

text \<open>
  The claim as stated has exactly one diagnostic recorded for the failed root. The scan of
  an unreadable root resolves with none.
\<close>

theorem unreadable_root_counterexample:
  "map_option (length \<circ> diagnostics)
     (scanDir exampleHost exampleConfig exampleContext (src exampleConfig)
        (DirUnreadable ''ENOENT'') initialCompileResults) = Some 0"
  by (simp add: initialCompileResults_def)

section \<open>The module-file map of a full run\<close>

lemma excluded_treeFiles:
  assumes "exclusionInherited h cfg"
  shows "\<not> isValidDirectory (exclude cfg) q \<Longrightarrow> filter (compilable h cfg) (treeFiles h q node) = []"
proof (induction node arbitrary: q)
  case (Dir es)
  have "filter (compilable h cfg) (treeFiles h (path_join h (normalizePath h q) n) nd) = []"
    if "(n, nd) \<in> set es" for n nd
  proof (rule Dir.IH [of "(n, nd)" nd])
    show "(n, nd) \<in> set es" by (rule that)
    show "nd \<in> Basic_BNFs.snds (n, nd)" by simp
    show "\<not> isValidDirectory (exclude cfg) (path_join h (normalizePath h q) n)"
      using assms Dir.prems by (simp add: exclusionInherited_def)
  qed
  then show ?case
    by (auto simp: filter_concat filter_empty_conv)
qed (simp_all add: compilable_def)

lemma scanItems_errorFree_aux:
  assumes inh: "exclusionInherited h cfg"
    and item: "\<And>n nd q c. (n, nd) \<in> set es \<Longrightarrow> isValidDirectory (exclude cfg) q \<Longrightarrow>
      \<exists>c'. scanItem h cfg ctx q nd c = Some c' \<and> diagnostics c' = diagnostics c
         \<and> dom (moduleFiles c') = dom (moduleFiles c) \<union> set (filter (compilable h cfg) (treeFiles h q nd))"
  shows "\<exists>cr'. scanItems h cfg ctx d es cr = Some cr' \<and> diagnostics cr' = diagnostics cr
     \<and> dom (moduleFiles cr') = dom (moduleFiles cr) \<union>
         set (filter (compilable h cfg)
           (concat (map (\<lambda>(n, node). treeFiles h (path_join h d n) node) es)))"
  using item
proof (induction es arbitrary: cr)
  case Nil
  then show ?case by simp
next
  case (Cons a es)
  obtain n nd where a: "a = (n, nd)" by (cases a)
  let ?p = "path_join h d n"
  let ?rest = "filter (compilable h cfg) (concat (map (\<lambda>(n, node). treeFiles h (path_join h d n) node) es))"
  have rest: "\<exists>cr'. scanItems h cfg ctx d es c = Some cr' \<and> diagnostics cr' = diagnostics c
     \<and> dom (moduleFiles cr') = dom (moduleFiles c) \<union> set ?rest" for c
  proof (rule Cons.IH)
    fix n' nd' q c0
    assume "(n', nd') \<in> set es" and v: "isValidDirectory (exclude cfg) q"
    then have "(n', nd') \<in> set (a # es)" by simp
    then show "\<exists>c'. scanItem h cfg ctx q nd' c0 = Some c' \<and> diagnostics c' = diagnostics c0
         \<and> dom (moduleFiles c') = dom (moduleFiles c0) \<union> set (filter (compilable h cfg) (treeFiles h q nd'))"
      using v by (rule Cons.prems)
  qed
  show ?case
  proof (cases "isValidDirectory (exclude cfg) ?p")
    case False
    have "filter (compilable h cfg) (treeFiles h ?p nd) = []"
      using inh False by (rule excluded_treeFiles)
    then show ?thesis
      unfolding a scanItems_Cons using False rest [of cr] by simp
  next
    case True
    have "(n, nd) \<in> set (a # es)" by (simp add: a)
    from Cons.prems [OF this True, of cr] obtain c1 where
      c1: "scanItem h cfg ctx ?p nd cr = Some c1" "diagnostics c1 = diagnostics cr"
        "dom (moduleFiles c1) = dom (moduleFiles cr) \<union> set (filter (compilable h cfg) (treeFiles h ?p nd))"
      by blast
    from rest [of c1] obtain cr' where
      cr': "scanItems h cfg ctx d es c1 = Some cr'" "diagnostics cr' = diagnostics c1"
        "dom (moduleFiles cr') = dom (moduleFiles c1) \<union> set ?rest"
      by blast
    have "scanItems h cfg ctx d (a # es) cr = Some cr'"
      unfolding a scanItems_Cons using True c1(1) cr'(1) by simp
    moreover have "diagnostics cr' = diagnostics cr" using c1(2) cr'(2) by simp
    moreover have "dom (moduleFiles cr') = dom (moduleFiles cr) \<union>
         set (filter (compilable h cfg)
           (concat (map (\<lambda>(n, node). treeFiles h (path_join h d n) node) (a # es))))"
      using c1(3) cr'(3) by (auto simp: a)
    ultimately show ?thesis by blast
  qed
qed

lemma scanItem_errorFree:
  assumes inh: "exclusionInherited h cfg" and loads: "loadsByPath h cfg ctx"
  shows "errorFree node \<Longrightarrow> isValidDirectory (exclude cfg) p \<Longrightarrow>
     \<exists>cr'. scanItem h cfg ctx p node cr = Some cr' \<and> diagnostics cr' = diagnostics cr
       \<and> dom (moduleFiles cr') = dom (moduleFiles cr) \<union> set (filter (compilable h cfg) (treeFiles h p node))"
proof (induction node arbitrary: p cr)
  case (StatFails e)
  then show ?case by simp
next
  case File
  show ?case
  proof (cases "isTsSourceFile h p")
    case True
    then have c: "compilable h cfg p" using File.prems by (simp add: compilable_def)
    then obtain mf where "getModuleFile h cfg ctx p = Inr mf" "tsFilePath mf = p"
      using loads by (auto simp: loadsByPath_def)
    then show ?thesis using True c by simp
  next
    case False
    then show ?thesis by (simp add: compilable_def)
  qed
next
  case (DirUnreadable e)
  then show ?case by simp
next
  case (Dir es)
  have "\<exists>cr'. scanItems h cfg ctx (normalizePath h p) es cr = Some cr' \<and> diagnostics cr' = diagnostics cr
     \<and> dom (moduleFiles cr') = dom (moduleFiles cr) \<union>
         set (filter (compilable h cfg)
           (concat (map (\<lambda>(n, node). treeFiles h (path_join h (normalizePath h p) n) node) es)))"
  proof (rule scanItems_errorFree_aux [OF inh])
    fix n nd q c
    assume mem: "(n, nd) \<in> set es" and v: "isValidDirectory (exclude cfg) q"
    have ef: "errorFree nd" using Dir.prems(1) mem by auto
    show "\<exists>c'. scanItem h cfg ctx q nd c = Some c' \<and> diagnostics c' = diagnostics c
         \<and> dom (moduleFiles c') = dom (moduleFiles c) \<union> set (filter (compilable h cfg) (treeFiles h q nd))"
      by (rule Dir.IH [of "(n, nd)" nd]) (simp_all add: mem ef v)
  qed
  then show ?case by simp
qed

lemma scanDir_errorFree:
  assumes inh: "exclusionInherited h cfg" and loads: "loadsByPath h cfg ctx"
    and ef: "errorFree tree" and root: "\<not> readdirFails tree"
  shows "\<exists>cr. scanDir h cfg ctx (src cfg) tree initialCompileResults = Some cr
     \<and> diagnostics cr = []
     \<and> dom (moduleFiles cr) = set (compilableFiles h cfg tree)"
proof -
  from root obtain es where tree: "tree = Dir es"
    by (cases tree) (simp_all add: readdirFails_def)
  have "\<exists>cr'. scanItems h cfg ctx (normalizePath h (src cfg)) es initialCompileResults = Some cr'
     \<and> diagnostics cr' = diagnostics initialCompileResults
     \<and> dom (moduleFiles cr') = dom (moduleFiles initialCompileResults) \<union>
         set (filter (compilable h cfg)
           (concat (map (\<lambda>(n, node). treeFiles h (path_join h (normalizePath h (src cfg)) n) node) es)))"
  proof (rule scanItems_errorFree_aux [OF inh])
    fix n nd q c
    assume mem: "(n, nd) \<in> set es" and v: "isValidDirectory (exclude cfg) q"
    have "errorFree nd" using ef mem by (auto simp: tree)
    then show "\<exists>c'. scanItem h cfg ctx q nd c = Some c' \<and> diagnostics c' = diagnostics c
         \<and> dom (moduleFiles c') = dom (moduleFiles c) \<union> set (filter (compilable h cfg) (treeFiles h q nd))"
      using v by (rule scanItem_errorFree [OF inh loads])
  qed
  then show ?thesis
    by (simp add: tree compilableFiles_def initialCompileResults_def)
qed

lemma dom_mergeModuleFile:
  "dom (moduleFiles (fst (mergeModuleFile cfg kv s))) = insert (fst kv) (dom (moduleFiles (fst s)))"
  by (simp add: mergeModuleFile_def Let_def split: option.split)

lemma dom_mergeModuleFiles:
  "dom (moduleFiles (fst (mergeModuleFiles cfg kvs s))) = dom (moduleFiles (fst s)) \<union> fst ` set kvs"
  by (induction kvs arbitrary: s) (auto simp: dom_mergeModuleFile)

lemma dom_mergeTranspileResults:
  "dom (moduleFiles (fst (mergeTranspileResults cfg tr (cr, ctx)))) =
     dom (moduleFiles cr) \<union> (case tr_moduleFiles tr of None \<Rightarrow> {} | Some kvs \<Rightarrow> fst ` set kvs)"
  by (simp add: mergeTranspileResults_def Let_def dom_mergeModuleFiles split: option.split)

lemma dom_pipeline:
  assumes "transpilesRequested h cfg ctx"
  shows "dom (moduleFiles (fst (catchAndFinish (afterScan h cfg ctx cr)))) = dom (moduleFiles cr)"
proof (cases "transpile h cfg ctx (moduleFiles cr)")
  case (Inl e)
  then show ?thesis by (simp add: afterScan_def catchAndFinish_def)
next
  case (Inr tr)
  let ?s2 = "mergeTranspileResults cfg tr (cr, ctx)"
  have sub: "(case tr_moduleFiles tr of None \<Rightarrow> {} | Some kvs \<Rightarrow> fst ` set kvs) \<subseteq> dom (moduleFiles cr)"
    using assms Inr by (auto simp: transpilesRequested_def split: option.split)
  have d2: "dom (moduleFiles (fst ?s2)) = dom (moduleFiles cr)"
    using sub by (auto simp: dom_mergeTranspileResults)
  show ?thesis
  proof (cases "generateManifest h cfg (snd ?s2) (fst ?s2)")
    case (Inl e)
    then show ?thesis
      using Inr d2 by (simp add: afterScan_def catchAndFinish_def Let_def case_prod_unfold)
  next
    case (Inr m)
    let ?r = "copySourceSassFilesToDest h cfg (snd ?s2) ((fst ?s2)\<lparr>manifest := m\<rparr>)"
    show ?thesis
      using \<open>transpile h cfg ctx (moduleFiles cr) = Inr tr\<close> Inr d2
      by (cases "fst ?r")
        (simp_all add: afterScan_def catchAndFinish_def Let_def case_prod_unfold)
  qed
qed

text \<open>
  Claim C2. On a tree whose root is listed and on which no \<^verbatim>\<open>stat\<close> and no
  \<^verbatim>\<open>readdir\<close> fails, with \<open>N\<close> compilable files that no pattern excludes, at \<open>N\<close>
  different paths, the pipeline resolves and the keys of its module-file map are exactly
  the paths of those files: \<open>N\<close> entries. The collaborators are taken to behave as
  \<open>loadsByPath\<close>, \<open>exclusionInherited\<close> and \<open>transpilesRequested\<close> say.
\<close>

theorem module_files_count:
  assumes "errorFree tree" and "\<not> readdirFails tree"
    and "loadsByPath h cfg ctx"
    and "exclusionInherited h cfg"
    and "transpilesRequested h cfg ctx"
    and "distinct (compilableFiles h cfg tree)"
  shows "\<exists>res ctx'. compileSrcDir h cfg ctx tree = Some (res, ctx')
     \<and> dom (moduleFiles res) = set (compilableFiles h cfg tree)
     \<and> card (dom (moduleFiles res)) = length (compilableFiles h cfg tree)"
proof -
  from scanDir_errorFree [OF assms(4) assms(3) assms(1) assms(2)] obtain cr where
    scan: "scanDir h cfg ctx (src cfg) tree initialCompileResults = Some cr"
    and keys: "dom (moduleFiles cr) = set (compilableFiles h cfg tree)"
    by blast
  let ?r = "catchAndFinish (afterScan h cfg ctx cr)"
  have run: "compileSrcDir h cfg ctx tree = Some (fst ?r, snd ?r)"
    by (simp add: compileSrcDir_def scan)
  have d: "dom (moduleFiles (fst ?r)) = set (compilableFiles h cfg tree)"
    using dom_pipeline [OF assms(5), of cr] keys by simp
  have "card (dom (moduleFiles (fst ?r))) = length (compilableFiles h cfg tree)"
    using assms(6) by (simp add: d distinct_card)
  with run d show ?thesis by blast
qed

theorem module_files_count_witness:
  "\<exists>res ctx'. compileSrcDir exampleHost exampleConfig exampleContext exampleTree = Some (res, ctx')
     \<and> dom (moduleFiles res) = {''/p/src/a.ts'', ''/p/src/b.ts'', ''/p/src/sub/c.ts''}
     \<and> card (dom (moduleFiles res)) = 3"
proof -
  have h1: "errorFree exampleTree" by (simp add: exampleTree_def)
  have h2: "\<not> readdirFails exampleTree" by (simp add: exampleTree_def readdirFails_def)
  have h3: "loadsByPath exampleHost exampleConfig exampleContext"
    by (simp add: loadsByPath_def example_host)
  have h4: "exclusionInherited exampleHost exampleConfig"
    by (auto simp: exclusionInherited_def isValidDirectory_iff example_host sublist_append)
  have h5: "transpilesRequested exampleHost exampleConfig exampleContext"
    by (auto simp: transpilesRequested_def example_host)
  have cf: "compilableFiles exampleHost exampleConfig exampleTree =
      [''/p/src/a.ts'', ''/p/src/b.ts'', ''/p/src/sub/c.ts'']"
    by (simp add: compilableFiles_def compilable_def exampleTree_def example_host example_config
        example_ts example_valid)
  have h6: "distinct (compilableFiles exampleHost exampleConfig exampleTree)"
    by (simp add: cf)
  from module_files_count [OF h1 h2 h3 h4 h5 h6] show ?thesis
    by (simp add: cf numeral_3_eq_3)
qed

section \<open>The referenced asset paths\<close>

lemma scanDir_includedSassFiles:
  assumes "scanDir h cfg ctx d tree cr = Some cr'"
  shows "includedSassFiles cr' = includedSassFiles cr"
proof -
  from assms scanDir_frame [of h cfg ctx d tree cr] obtain r where "cr' = overlay cr r"
    by (auto split: option.splits)
  then show ?thesis by (simp add: overlay_fields)
qed

lemma includedSassFiles_pipeline:
  assumes d: "distinct (includedSassFiles cr)"
  shows "distinct (includedSassFiles (fst (catchAndFinish (afterScan h cfg ctx cr))))"
proof (cases "transpile h cfg ctx (moduleFiles cr)")
  case (Inl e)
  then show ?thesis using d by (simp add: afterScan_def catchAndFinish_def)
next
  case (Inr tr)
  let ?s2 = "mergeTranspileResults cfg tr (cr, ctx)"
  have d2: "distinct (includedSassFiles (fst ?s2))"
    using d
    by (auto simp: mergeTranspileResults_def Let_def includedSassFiles_mergeModuleFiles
        pushSassFiles_eq distinct_firstOccurrences set_firstOccurrences split: option.split)
  show ?thesis
  proof (cases "generateManifest h cfg (snd ?s2) (fst ?s2)")
    case (Inl e)
    then show ?thesis
      using Inr d2 by (simp add: afterScan_def catchAndFinish_def Let_def case_prod_unfold)
  next
    case (Inr m)
    let ?r = "copySourceSassFilesToDest h cfg (snd ?s2) ((fst ?s2)\<lparr>manifest := m\<rparr>)"
    show ?thesis
      using \<open>transpile h cfg ctx (moduleFiles cr) = Inr tr\<close> Inr d2
      by (cases "fst ?r")
        (simp_all add: afterScan_def catchAndFinish_def Let_def case_prod_unfold)
  qed
qed

lemma pipeline_sass_files_distinct:
  "compileSrcDir h cfg ctx tree = Some (res, ctx') \<Longrightarrow> distinct (includedSassFiles res)"
proof -
  assume run: "compileSrcDir h cfg ctx tree = Some (res, ctx')"
  then obtain cr where scan: "scanDir h cfg ctx (src cfg) tree initialCompileResults = Some cr"
    and res: "res = fst (catchAndFinish (afterScan h cfg ctx cr))"
    by (auto simp: compileSrcDir_def split: option.splits)
  have "includedSassFiles cr = []"
    using scanDir_includedSassFiles [OF scan] by (simp add: initialCompileResults_def)
  then have "distinct (includedSassFiles cr)" by simp
  then show ?thesis unfolding res by (rule includedSassFiles_pipeline)
qed

text \<open>
  Claim C9. Whatever sequence of module files is merged, the list of referenced asset
  paths afterwards is the list before the merge followed by the paths the merged module
  files reference that were not in it, each once, in the order of first discovery; a path
  already present is skipped. The list has a duplicate after the merge exactly when it had
  one before. The pipeline starts from the empty list, and the list it resolves with has
  no duplicate.
\<close>

theorem merged_sass_files_first_discovery:
  "includedSassFiles (fst (mergeModuleFiles cfg kvs (cr, ctx))) =
     includedSassFiles cr @
       firstOccurrences (filter (\<lambda>p. p \<notin> set (includedSassFiles cr)) (concat (map sassRefs kvs)))
   \<and> distinct (includedSassFiles (fst (mergeModuleFiles cfg kvs (cr, ctx)))) =
       distinct (includedSassFiles cr)
   \<and> (case compileSrcDir h cfg ctx tree of
         None \<Rightarrow> True
       | Some r \<Rightarrow> distinct (includedSassFiles (fst r)))"
proof -
  have "distinct (includedSassFiles (fst r))" if "compileSrcDir h cfg ctx tree = Some r" for r
    using that pipeline_sass_files_distinct [of h cfg ctx tree "fst r" "snd r"] by simp
  then show ?thesis
    by (auto simp: includedSassFiles_mergeModuleFiles pushSassFiles_eq
        distinct_firstOccurrences set_firstOccurrences split: option.split)
qed

end
